theory Spec2Isabelle
  imports Complex_Main "HOL-Library.Sublist"
begin

section \<open>Data model of the graph renderer\<close>

text \<open>
  The interfaces of \<^verbatim>\<open>GraphRenderer.ts\<close>.  The repository holds two copies of the
  class; the model follows the current one, whose constructor takes the tag index and
  which \<^verbatim>\<open>main.ts\<close> instantiates.  Field names carry a prefix where two
  interfaces share a name or the name is reserved (\<^verbatim>\<open>file\<close>, \<^verbatim>\<open>id\<close>).

  A JavaScript \<^verbatim>\<open>Set<string>\<close> is a list in insertion order (its iteration
  order; a set has no duplicates, and a statement that depends on that assumes the list
  distinct).  A \<^verbatim>\<open>Map\<close> or \<^verbatim>\<open>Record\<close> that is iterated is an association
  list in iteration order, read by key with \<open>map_of\<close>; a \<^verbatim>\<open>Map\<close> that is only
  read by key is a partial function.  \<^verbatim>\<open>allData[path]\<close> is the lookup of an own key
  of the record (vault paths do not name members of \<^verbatim>\<open>Object.prototype\<close>).

  Node objects are compared by reference in JavaScript and by value here.  The nodes of
  one build have different \<^verbatim>\<open>path\<close> fields when the selection is a set, so the
  two agree on them.
\<close>

record FileSummary =
  fs_file :: string
  fs_content :: string
  fs_links :: "string list"

record GraphTag =
  tag_name :: string
  tag_color :: string
  tag_files :: "string list"

record GraphNode =
  node_id :: string
  node_name :: string
  node_path :: string
  radius :: nat
  isSelected :: bool
  node_color :: string

record GraphLink =
  source :: GraphNode
  target :: GraphNode
  link_type :: string
  link_tag :: "string option"

type_synonym corpus = "(string \<times> FileSummary) list"
type_synonym tag_index = "(string \<times> GraphTag) list"

section \<open>Helpers of the build\<close>

text \<open>\<^verbatim>\<open>s.replace(/\.md$/, '')\<close>: a trailing \<^verbatim>\<open>.md\<close> is cut off, once.\<close>

definition stripMd :: "string \<Rightarrow> string" where
  "stripMd s = (if suffix ''.md'' s then take (length s - 3) s else s)"

text \<open>
  \<^verbatim>\<open>Object.entries(this.allData).find(...)\<close> of the link pass: the first entry whose
  basename, path or path without extension equals the normalized link.
\<close>

definition findTarget :: "corpus \<Rightarrow> string \<Rightarrow> (string \<times> FileSummary) option" where
  "findTarget allData normalizedLink =
     find (\<lambda>(targetPath, targetFile).
             fs_file targetFile = normalizedLink \<or>
             targetPath = normalizedLink \<or>
             stripMd targetPath = normalizedLink) allData"

text \<open>The template literal \<^verbatim>\<open>${groupId}\<close>: a natural number in decimal.\<close>

function numberToString :: "nat \<Rightarrow> string" where
  "numberToString n =
     (if n < 10 then [''0123456789'' ! n]
      else numberToString (n div 10) @ [''0123456789'' ! (n mod 10)])"
  by pat_completeness auto
termination
  by (relation "measure id") auto

declare numberToString.simps [simp del]

text \<open>
  \<^verbatim>\<open>Array.prototype.sort(compare)\<close> is stable: an insertion sort that puts an element
  in front of the first one it does not compare greater than.
\<close>

fun insertBy :: "('a \<Rightarrow> 'a \<Rightarrow> int) \<Rightarrow> 'a \<Rightarrow> 'a list \<Rightarrow> 'a list" where
  "insertBy cmp x [] = [x]"
| "insertBy cmp x (y # ys) =
     (if cmp x y \<le> 0 then x # y # ys else y # insertBy cmp x ys)"

definition sortBy :: "('a \<Rightarrow> 'a \<Rightarrow> int) \<Rightarrow> 'a list \<Rightarrow> 'a list" where
  "sortBy cmp xs = foldr (insertBy cmp) xs []"

text \<open>\<^verbatim>\<open>set.add(x)\<close> on a set kept in insertion order.\<close>

definition setAdd :: "'a \<Rightarrow> 'a list \<Rightarrow> 'a list" where
  "setAdd x xs = (if x \<in> set xs then xs else xs @ [x])"

text \<open>\<^verbatim>\<open>nodeMap.get(a) || nodeMap.get(b)\<close>: a node object is truthy.\<close>

definition getEither :: "(string \<rightharpoonup> GraphNode) \<Rightarrow> string \<Rightarrow> string \<Rightarrow> GraphNode option" where
  "getEither nodeMap a b = (case nodeMap a of Some n \<Rightarrow> Some n | None \<Rightarrow> nodeMap b)"

section \<open>First pass of generateGraphData: tags of the selected files\<close>

record Collected =
  fileTags :: "string \<rightharpoonup> string list"
  tagGroups :: "string \<rightharpoonup> string list"
  untaggedFiles :: "string list"

text \<open>
  The body of \<^verbatim>\<open>this.tags.forEach((tag, tagName) => ...)\<close> for one file: the state
  is the file's tag set and \<^verbatim>\<open>tagGroups\<close>.
\<close>

definition collectTag ::
  "string \<Rightarrow> string list \<times> (string \<rightharpoonup> string list) \<Rightarrow> string \<times> GraphTag
     \<Rightarrow> string list \<times> (string \<rightharpoonup> string list)" where
  "collectTag path st entry =
     (case st of (tags, groups) \<Rightarrow>
      case entry of (tagName, tag) \<Rightarrow>
        if path \<in> set (tag_files tag)
        then (setAdd tagName tags,
              (case groups tagName of
                 None \<Rightarrow> groups(tagName \<mapsto> [path])
               | Some ps \<Rightarrow> groups(tagName \<mapsto> ps @ [path])))
        else (tags, groups))"

definition collectFile :: "corpus \<Rightarrow> tag_index \<Rightarrow> Collected \<Rightarrow> string \<Rightarrow> Collected" where
  "collectFile allData tags c path =
     (case map_of allData path of
        None \<Rightarrow> c
      | Some fileSummary \<Rightarrow>
          (case foldl (collectTag path) ([], tagGroups c) tags of
             (ts, groups) \<Rightarrow>
               \<lparr> fileTags = (fileTags c)(path \<mapsto> ts),
                 tagGroups = groups,
                 untaggedFiles =
                   (if ts = [] then untaggedFiles c @ [path] else untaggedFiles c) \<rparr>))"

definition collectTags :: "corpus \<Rightarrow> tag_index \<Rightarrow> string list \<Rightarrow> Collected" where
  "collectTags allData tags selectedNodes =
     foldl (collectFile allData tags)
       \<lparr> fileTags = Map.empty, tagGroups = Map.empty, untaggedFiles = [] \<rparr> selectedNodes"

section \<open>createUntaggedGroups\<close>

text \<open>
  \<^verbatim>\<open>groups\<close> is a \<^verbatim>\<open>Map<number, string[]>\<close> that is iterated later, so it is an
  association list in insertion order.  \<open>pushGroup\<close> is
  \<^verbatim>\<open>if (!groups.has(g)) groups.set(g, []); groups.get(g).push(f)\<close>.
\<close>

fun pushGroup :: "(nat \<times> string list) list \<Rightarrow> nat \<Rightarrow> string \<Rightarrow> (nat \<times> string list) list" where
  "pushGroup [] g f = [(g, [f])]"
| "pushGroup ((k, fs) # rest) g f =
     (if k = g then (k, fs @ [f]) # rest else (k, fs) # pushGroup rest g f)"

text \<open>The \<^verbatim>\<open>for\<close> loop from index \<open>i\<close> on, over the files not yet visited.\<close>

fun untaggedLoop ::
  "nat \<Rightarrow> string list \<Rightarrow> (nat \<times> string list) list \<Rightarrow> (nat \<times> string list) list" where
  "untaggedLoop i [] groups = groups"
| "untaggedLoop i (f # fs) groups =
     untaggedLoop (i + 1) fs (pushGroup groups (i div 3 + 1) f)"

definition createUntaggedGroups :: "string list \<Rightarrow> (nat \<times> string list) list" where
  "createUntaggedGroups untagged = untaggedLoop 0 untagged []"

section \<open>Second pass: nodes and their colors\<close>

text \<open>\<^verbatim>\<open>tagGroups.get(a)?.length || 0\<close>\<close>

definition groupCount :: "(string \<rightharpoonup> string list) \<Rightarrow> string \<Rightarrow> nat" where
  "groupCount groups a = (case groups a of None \<Rightarrow> 0 | Some ps \<Rightarrow> length ps)"

definition compareTags :: "(string \<rightharpoonup> string list) \<Rightarrow> string \<Rightarrow> string \<Rightarrow> int" where
  "compareTags groups a b = int (groupCount groups b) - int (groupCount groups a)"

definition taggedColor :: "tag_index \<Rightarrow> (string \<rightharpoonup> string list) \<Rightarrow> string list \<Rightarrow> string" where
  "taggedColor tags groups ts =
     (case sortBy (compareTags groups) ts of
        [] \<Rightarrow> ''untagged-group-1''
      | t # _ \<Rightarrow>
          (case map_of tags t of
             Some primaryTag \<Rightarrow> tag_color primaryTag
           | None \<Rightarrow> ''untagged-group-1''))"

text \<open>
  \<^verbatim>\<open>untaggedGroups.forEach((files, groupId) => ...)\<close>: the state is
  \<^verbatim>\<open>(nodeColor, groupFound)\<close>; the last group that holds the path wins.
\<close>

definition untaggedColor :: "(nat \<times> string list) list \<Rightarrow> string \<Rightarrow> string" where
  "untaggedColor untaggedGroups path =
     (case foldl (\<lambda>(nodeColor, groupFound) (groupId, files).
                    if path \<in> set files
                    then (''untagged-group-'' @ numberToString groupId, True)
                    else (nodeColor, groupFound))
                 ('''', False) untaggedGroups of
        (nodeColor, groupFound) \<Rightarrow>
          if \<not> groupFound then ''untagged-group-1'' else nodeColor)"

definition nodeColorOf ::
  "tag_index \<Rightarrow> Collected \<Rightarrow> (nat \<times> string list) list \<Rightarrow> string \<Rightarrow> string" where
  "nodeColorOf tags c untaggedGroups path =
     (let ts = (case fileTags c path of None \<Rightarrow> [] | Some ts \<Rightarrow> ts)
      in if length ts > 0 then taggedColor tags (tagGroups c) ts
         else untaggedColor untaggedGroups path)"

definition createNode ::
  "corpus \<Rightarrow> tag_index \<Rightarrow> Collected \<Rightarrow> (nat \<times> string list) list
     \<Rightarrow> GraphNode list \<times> (string \<rightharpoonup> GraphNode) \<Rightarrow> string
     \<Rightarrow> GraphNode list \<times> (string \<rightharpoonup> GraphNode)" where
  "createNode allData tags c untaggedGroups st path =
     (case st of (nodes, nodeMap) \<Rightarrow>
      case map_of allData path of
        None \<Rightarrow> (nodes, nodeMap)
      | Some fileSummary \<Rightarrow>
          (let node = \<lparr> node_id = fs_file fileSummary,
                        node_name = fs_file fileSummary,
                        node_path = path,
                        radius = 12,
                        isSelected = True,
                        node_color = nodeColorOf tags c untaggedGroups path \<rparr>
           in (nodes @ [node], nodeMap(fs_file fileSummary \<mapsto> node, path \<mapsto> node))))"

definition createNodes ::
  "corpus \<Rightarrow> tag_index \<Rightarrow> Collected \<Rightarrow> (nat \<times> string list) list \<Rightarrow> string list
     \<Rightarrow> GraphNode list \<times> (string \<rightharpoonup> GraphNode)" where
  "createNodes allData tags c untaggedGroups selectedNodes =
     foldl (createNode allData tags c untaggedGroups) ([], Map.empty) selectedNodes"

section \<open>Third pass: links\<close>

text \<open>\<^verbatim>\<open>this.links.some(l => ...)\<close>: an edge between the two ids, in either direction.\<close>

definition linkExists :: "GraphLink list \<Rightarrow> GraphNode \<Rightarrow> GraphNode \<Rightarrow> bool" where
  "linkExists ls sourceNode targetNode =
     list_ex (\<lambda>l. (node_id (source l) = node_id sourceNode \<and>
                   node_id (target l) = node_id targetNode) \<or>
                  (node_id (source l) = node_id targetNode \<and>
                   node_id (target l) = node_id sourceNode)) ls"

definition addWikiLink ::
  "corpus \<Rightarrow> string list \<Rightarrow> (string \<rightharpoonup> GraphNode) \<Rightarrow> GraphNode
     \<Rightarrow> GraphLink list \<Rightarrow> string \<Rightarrow> GraphLink list" where
  "addWikiLink allData selectedNodes nodeMap sourceNode ls link =
     (let normalizedLink = stripMd link in
      case findTarget allData normalizedLink of
        None \<Rightarrow> ls
      | Some (targetPath, targetFile) \<Rightarrow>
          if targetPath \<in> set selectedNodes then
            (case getEither nodeMap (fs_file targetFile) targetPath of
               None \<Rightarrow> ls
             | Some targetNode \<Rightarrow>
                 if node_id sourceNode \<noteq> node_id targetNode then
                   (if \<not> linkExists ls sourceNode targetNode
                    then ls @ [\<lparr> source = sourceNode, target = targetNode,
                                 link_type = ''wiki-link'', link_tag = None \<rparr>]
                    else ls)
                 else ls)
          else ls)"

definition addTagLink ::
  "string list \<Rightarrow> (string \<rightharpoonup> GraphNode) \<Rightarrow> string \<Rightarrow> GraphNode \<Rightarrow> string
     \<Rightarrow> GraphLink list \<Rightarrow> string \<Rightarrow> GraphLink list" where
  "addTagLink selectedNodes nodeMap path sourceNode tag ls targetPath =
     (if targetPath \<noteq> path \<and> targetPath \<in> set selectedNodes then
        (case nodeMap targetPath of
           None \<Rightarrow> ls
         | Some targetNode \<Rightarrow>
             if node_id sourceNode \<noteq> node_id targetNode then
               (if \<not> linkExists ls sourceNode targetNode
                then ls @ [\<lparr> source = sourceNode, target = targetNode,
                             link_type = ''tag-link'', link_tag = Some tag \<rparr>]
                else ls)
             else ls)
      else ls)"

definition addTagLinks ::
  "tag_index \<Rightarrow> string list \<Rightarrow> (string \<rightharpoonup> GraphNode) \<Rightarrow> string \<Rightarrow> GraphNode
     \<Rightarrow> GraphLink list \<Rightarrow> string \<Rightarrow> GraphLink list" where
  "addTagLinks tags selectedNodes nodeMap path sourceNode ls tag =
     (case map_of tags tag of
        None \<Rightarrow> ls
      | Some tagData \<Rightarrow>
          foldl (addTagLink selectedNodes nodeMap path sourceNode tag) ls (tag_files tagData))"

definition createLinks ::
  "corpus \<Rightarrow> string list \<Rightarrow> tag_index \<Rightarrow> bool \<Rightarrow> (string \<rightharpoonup> string list)
     \<Rightarrow> (string \<rightharpoonup> GraphNode) \<Rightarrow> GraphLink list \<Rightarrow> string \<Rightarrow> GraphLink list" where
  "createLinks allData selectedNodes tags showTagConnections ftags nodeMap ls path =
     (case map_of allData path of
        None \<Rightarrow> ls
      | Some fileSummary \<Rightarrow>
          (case getEither nodeMap (fs_file fileSummary) path of
             None \<Rightarrow> ls
           | Some sourceNode \<Rightarrow>
               (let ls1 = foldl (addWikiLink allData selectedNodes nodeMap sourceNode) ls
                            (fs_links fileSummary)
                in if showTagConnections
                   then foldl (addTagLinks tags selectedNodes nodeMap path sourceNode) ls1
                          (case ftags path of None \<Rightarrow> [] | Some ts \<Rightarrow> ts)
                   else ls1)))"

section \<open>generateGraphData\<close>

text \<open>
  The method reads \<^verbatim>\<open>allData\<close>, \<^verbatim>\<open>selectedNodes\<close>, \<^verbatim>\<open>tags\<close> and
  \<^verbatim>\<open>settings.showTagConnections\<close> and leaves its result in \<^verbatim>\<open>this.nodes\<close> and
  \<^verbatim>\<open>this.links\<close>; here they are its arguments and its value.
\<close>

definition generateGraphData ::
  "corpus \<Rightarrow> string list \<Rightarrow> tag_index \<Rightarrow> bool \<Rightarrow> GraphNode list \<times> GraphLink list" where
  "generateGraphData allData selectedNodes tags showTagConnections =
     (if length selectedNodes = 0 then ([], [])
      else
        (let c = collectTags allData tags selectedNodes;
             untaggedGroups = createUntaggedGroups (untaggedFiles c)
         in case createNodes allData tags c untaggedGroups selectedNodes of
              (nodes, nodeMap) \<Rightarrow>
                (nodes,
                 foldl (createLinks allData selectedNodes tags showTagConnections
                          (fileTags c) nodeMap) [] selectedNodes)))"

section \<open>The edges in discovery order\<close>

text \<open>
  For the statements about deduplication: the edge each step of the link pass would
  push if no earlier edge stood in its way (every check of the source but
  \<^verbatim>\<open>linkExists\<close>), the push itself, and the rule the specification words as
  ``only the first-discovered edge between any two nodes survives''.
\<close>

definition wikiCandidate ::
  "corpus \<Rightarrow> string list \<Rightarrow> (string \<rightharpoonup> GraphNode) \<Rightarrow> GraphNode \<Rightarrow> string
     \<Rightarrow> GraphLink option" where
  "wikiCandidate allData selectedNodes nodeMap sourceNode link =
     (case findTarget allData (stripMd link) of
        None \<Rightarrow> None
      | Some (targetPath, targetFile) \<Rightarrow>
          if targetPath \<in> set selectedNodes then
            (case getEither nodeMap (fs_file targetFile) targetPath of
               None \<Rightarrow> None
             | Some targetNode \<Rightarrow>
                 if node_id sourceNode \<noteq> node_id targetNode
                 then Some \<lparr> source = sourceNode, target = targetNode,
                             link_type = ''wiki-link'', link_tag = None \<rparr>
                 else None)
          else None)"

definition tagCandidate ::
  "string list \<Rightarrow> (string \<rightharpoonup> GraphNode) \<Rightarrow> string \<Rightarrow> GraphNode \<Rightarrow> string \<Rightarrow> string
     \<Rightarrow> GraphLink option" where
  "tagCandidate selectedNodes nodeMap path sourceNode tag targetPath =
     (if targetPath \<noteq> path \<and> targetPath \<in> set selectedNodes then
        (case nodeMap targetPath of
           None \<Rightarrow> None
         | Some targetNode \<Rightarrow>
             if node_id sourceNode \<noteq> node_id targetNode
             then Some \<lparr> source = sourceNode, target = targetNode,
                         link_type = ''tag-link'', link_tag = Some tag \<rparr>
             else None)
      else None)"

definition tagCandidates ::
  "tag_index \<Rightarrow> string list \<Rightarrow> (string \<rightharpoonup> GraphNode) \<Rightarrow> string \<Rightarrow> GraphNode \<Rightarrow> string
     \<Rightarrow> GraphLink list" where
  "tagCandidates tags selectedNodes nodeMap path sourceNode tag =
     (case map_of tags tag of
        None \<Rightarrow> []
      | Some tagData \<Rightarrow>
          List.map_filter (tagCandidate selectedNodes nodeMap path sourceNode tag)
            (tag_files tagData))"

definition candidatesOf ::
  "corpus \<Rightarrow> string list \<Rightarrow> tag_index \<Rightarrow> bool \<Rightarrow> (string \<rightharpoonup> string list)
     \<Rightarrow> (string \<rightharpoonup> GraphNode) \<Rightarrow> string \<Rightarrow> GraphLink list" where
  "candidatesOf allData selectedNodes tags showTagConnections ftags nodeMap path =
     (case map_of allData path of
        None \<Rightarrow> []
      | Some fileSummary \<Rightarrow>
          (case getEither nodeMap (fs_file fileSummary) path of
             None \<Rightarrow> []
           | Some sourceNode \<Rightarrow>
               List.map_filter (wikiCandidate allData selectedNodes nodeMap sourceNode)
                 (fs_links fileSummary) @
               (if showTagConnections
                then concat (map (tagCandidates tags selectedNodes nodeMap path sourceNode)
                               (case ftags path of None \<Rightarrow> [] | Some ts \<Rightarrow> ts))
                else [])))"

definition discoveredLinks :: "corpus \<Rightarrow> string list \<Rightarrow> tag_index \<Rightarrow> bool \<Rightarrow> GraphLink list" where
  "discoveredLinks allData selectedNodes tags showTagConnections =
     (let c = collectTags allData tags selectedNodes;
          untaggedGroups = createUntaggedGroups (untaggedFiles c)
      in case createNodes allData tags c untaggedGroups selectedNodes of
           (nodes, nodeMap) \<Rightarrow>
             concat (map (candidatesOf allData selectedNodes tags showTagConnections
                            (fileTags c) nodeMap) selectedNodes))"

text \<open>The guarded push shared by both kinds of edge.\<close>

definition addLink :: "GraphLink list \<Rightarrow> GraphLink \<Rightarrow> GraphLink list" where
  "addLink ls e = (if \<not> linkExists ls (source e) (target e) then ls @ [e] else ls)"

text \<open>The unordered pair of the ids of an edge's endpoints, and of the endpoints.\<close>

definition idPair :: "GraphLink \<Rightarrow> string set" where
  "idPair l = {node_id (source l), node_id (target l)}"

definition endpointPair :: "GraphLink \<Rightarrow> GraphNode set" where
  "endpointPair l = {source l, target l}"

text \<open>Of the edges of one pair of ids, keep the first.\<close>

fun firstPerPair :: "GraphLink list \<Rightarrow> GraphLink list" where
  "firstPerPair [] = []"
| "firstPerPair (e # es) = e # firstPerPair (filter (\<lambda>d. idPair d \<noteq> idPair e) es)"

text \<open>The node object the second pass constructs for a selected path, if it constructs one.\<close>

definition nodeOf ::
  "corpus \<Rightarrow> tag_index \<Rightarrow> Collected \<Rightarrow> (nat \<times> string list) list \<Rightarrow> string
     \<Rightarrow> GraphNode option" where
  "nodeOf allData tags c untaggedGroups path =
     (case map_of allData path of
        None \<Rightarrow> None
      | Some fileSummary \<Rightarrow>
          Some \<lparr> node_id = fs_file fileSummary,
                 node_name = fs_file fileSummary,
                 node_path = path,
                 radius = 12,
                 isSelected = True,
                 node_color = nodeColorOf tags c untaggedGroups path \<rparr>)"

section \<open>The renderer handle: simulation, resize observer, teardown\<close>

text \<open>
  The part of a \<^verbatim>\<open>GraphRenderer\<close> that its lifecycle methods touch.  Of the d3
  simulation the model keeps the two things these methods set: whether its internal
  timer runs (\<^verbatim>\<open>stop()\<close> halts it, \<^verbatim>\<open>restart()\<close> starts it, a new simulation
  starts running) and \<^verbatim>\<open>alpha\<close>.  \<open>simulation = None\<close> is the field before
  \<^verbatim>\<open>initializeSimulation\<close> has assigned it.  \<open>resizeObservers\<close> counts the
  \<^verbatim>\<open>ResizeObserver\<close> objects this renderer has created that still observe the
  container; only \<^verbatim>\<open>disconnect\<close> or \<^verbatim>\<open>unobserve\<close> would lower it, and the class
  calls neither.  \<open>tickCalls\<close> counts the runs of \<^verbatim>\<open>ticked()\<close>.
\<close>

record Simulation =
  timerRunning :: bool
  alpha :: rat

record Renderer =
  simulation :: "Simulation option"
  svgAttached :: bool
  tooltipAttached :: bool
  resizeObservers :: nat
  tickCalls :: nat

text \<open>
  \<^verbatim>\<open>initializeSimulation\<close>: stop the old simulation if there is one, create a new one
  with \<^verbatim>\<open>alpha(0.5)\<close> and the tick listener, and \<^verbatim>\<open>restart()\<close> it.
\<close>

definition initializeSimulation :: "Renderer \<Rightarrow> Renderer" where
  "initializeSimulation r =
     (let r1 = (case simulation r of
                  Some s \<Rightarrow> r\<lparr> simulation := Some (s\<lparr> timerRunning := False \<rparr>) \<rparr>
                | None \<Rightarrow> r)
      in r1\<lparr> simulation := Some \<lparr> timerRunning = True, alpha = 1 / 2 \<rparr> \<rparr>)"

text \<open>
  \<^verbatim>\<open>setupResizeObserver\<close>: the observer is a local constant; after
  \<^verbatim>\<open>observe(this.container)\<close> nothing in the class refers to it.
\<close>

definition setupResizeObserver :: "Renderer \<Rightarrow> Renderer" where
  "setupResizeObserver r = r\<lparr> resizeObservers := resizeObservers r + 1 \<rparr>"

text \<open>
  The callback given to the \<^verbatim>\<open>ResizeObserver\<close>; the browser runs it while an
  observer of this renderer observes the container.
\<close>

definition resizeObserved :: "Renderer \<Rightarrow> Renderer" where
  "resizeObserved r =
     (if resizeObservers r = 0 then r
      else (case simulation r of
              Some s \<Rightarrow> r\<lparr> simulation := Some (s\<lparr> alpha := 3 / 10, timerRunning := True \<rparr>) \<rparr>
            | None \<Rightarrow> r))"

text \<open>
  \<^verbatim>\<open>initializeGraph\<close>, called by the constructor: tooltip, svg, graph data and
  elements (which leave these fields alone), simulation, resize observer.
\<close>

definition initializeGraph :: "Renderer \<Rightarrow> Renderer" where
  "initializeGraph r =
     setupResizeObserver
       (initializeSimulation (r\<lparr> tooltipAttached := True, svgAttached := True \<rparr>))"

definition newRenderer :: Renderer where
  "newRenderer =
     initializeGraph
       \<lparr> simulation = None, svgAttached = False, tooltipAttached = False,
         resizeObservers = 0, tickCalls = 0 \<rparr>"

text \<open>One firing of the simulation's timer: \<^verbatim>\<open>ticked()\<close> runs if the timer runs.\<close>

definition timerFires :: "Renderer \<Rightarrow> Renderer" where
  "timerFires r =
     (case simulation r of
        Some s \<Rightarrow> if timerRunning s then r\<lparr> tickCalls := tickCalls r + 1 \<rparr> else r
      | None \<Rightarrow> r)"

definition updateSimulation :: "Renderer \<Rightarrow> Renderer" where
  "updateSimulation r =
     (case simulation r of
        None \<Rightarrow> r
      | Some s \<Rightarrow> r\<lparr> simulation := Some (s\<lparr> alpha := 3 / 10, timerRunning := True \<rparr>) \<rparr>)"

definition restartSimulation :: "Renderer \<Rightarrow> Renderer" where
  "restartSimulation r =
     (case simulation r of
        Some s \<Rightarrow> r\<lparr> simulation := Some (s\<lparr> alpha := 1 / 2, timerRunning := True \<rparr>) \<rparr>
      | None \<Rightarrow> r)"

text \<open>
  \<^verbatim>\<open>destroy\<close>: stop the simulation, remove the svg, remove the tooltip.  The
  \<^verbatim>\<open>simulation\<close> field keeps its value and no observer is disconnected.
\<close>

definition destroy :: "Renderer \<Rightarrow> Renderer" where
  "destroy r =
     (let r1 = (case simulation r of
                  Some s \<Rightarrow> r\<lparr> simulation := Some (s\<lparr> timerRunning := False \<rparr>) \<rparr>
                | None \<Rightarrow> r);
          r2 = (if svgAttached r1 then r1\<lparr> svgAttached := False \<rparr> else r1)
      in if tooltipAttached r2 then r2\<lparr> tooltipAttached := False \<rparr> else r2)"

section \<open>Notions the statements use\<close>

text \<open>A node array holds a node for the document of a given path.\<close>

definition hasNodeFor :: "GraphNode list \<Rightarrow> string \<Rightarrow> bool" where
  "hasNodeFor nodes path = list_ex (\<lambda>n. node_path n = path) nodes"

text \<open>
  The selection test with three spellings.  It is the local \<^verbatim>\<open>isSelected\<close> of the
  earlier revision of \<^verbatim>\<open>generateGraphData\<close> that the repository still carries (the
  copy of the class whose constructor takes no tag index, which iterates
  \<^verbatim>\<open>Object.entries(this.allData)\<close>); the current revision has no such test.
\<close>

definition isSelectedAnySpelling :: "string list \<Rightarrow> string \<Rightarrow> FileSummary \<Rightarrow> bool" where
  "isSelectedAnySpelling selectedNodes path fileSummary =
     (path \<in> set selectedNodes \<or>
      fs_file fileSummary \<in> set selectedNodes \<or>
      stripMd path \<in> set selectedNodes)"

text \<open>A link that resolves to a document, and a corpus with the other links removed.\<close>

definition resolvable :: "corpus \<Rightarrow> string \<Rightarrow> bool" where
  "resolvable allData link = (findTarget allData (stripMd link) \<noteq> None)"

definition dropDangling :: "corpus \<Rightarrow> corpus" where
  "dropDangling allData =
     map (\<lambda>(path, fileSummary).
            (path, fileSummary\<lparr> fs_links := filter (resolvable allData) (fs_links fileSummary) \<rparr>))
         allData"

text \<open>The names of the tags that list a path as a member, in tag-index order.\<close>

definition memberTags :: "tag_index \<Rightarrow> string \<Rightarrow> string list" where
  "memberTags tags path =
     map fst (filter (\<lambda>(tagName, tag). path \<in> set (tag_files tag)) tags)"

text \<open>
  Two measures of how populous a tag is: the number of included documents (selected and
  present in the corpus) that carry it, and the size of its member set.
\<close>

definition population :: "corpus \<Rightarrow> string list \<Rightarrow> tag_index \<Rightarrow> string \<Rightarrow> nat" where
  "population allData selectedNodes tags t =
     length (filter (\<lambda>q. map_of allData q \<noteq> None \<and> t \<in> set (memberTags tags q))
               selectedNodes)"

definition memberCount :: "tag_index \<Rightarrow> string \<Rightarrow> nat" where
  "memberCount tags t = (case map_of tags t of None \<Rightarrow> 0 | Some tag \<Rightarrow> length (tag_files tag))"

text \<open>
  ``The most populous of the tags \<open>ms\<close>, the first one on a tie'', for a measure
  \<open>pop\<close>: \<open>t\<close> is among them, none exceeds it, and those before its first
  occurrence are strictly smaller.
\<close>

definition firstMostPopulous :: "(string \<Rightarrow> nat) \<Rightarrow> string list \<Rightarrow> string \<Rightarrow> bool" where
  "firstMostPopulous pop ms t =
     (t \<in> set ms \<and>
      list_all (\<lambda>u. pop u \<le> pop t) ms \<and>
      list_all (\<lambda>u. pop u < pop t) (takeWhile (\<lambda>u. u \<noteq> t) ms))"

section \<open>Example inputs\<close>

text \<open>
  A vault of three notes as \<^verbatim>\<open>parseVault\<close> delivers it (keys are vault paths,
  \<^verbatim>\<open>file\<close> is the basename, links are the targets of \<^verbatim>\<open>[[...]]\<close>), a
  selection of all three and a tag that all three carry.
\<close>

definition exCorpus :: corpus where
  "exCorpus =
     [(''A.md'', \<lparr> fs_file = ''A'', fs_content = ''#x [[B]]'', fs_links = [''B''] \<rparr>),
      (''B.md'', \<lparr> fs_file = ''B'', fs_content = ''#x [[C]] [[A.md]]'',
                   fs_links = [''C'', ''A.md''] \<rparr>),
      (''C.md'', \<lparr> fs_file = ''C'', fs_content = ''#x'', fs_links = [] \<rparr>)]"

definition exSelection :: "string list" where
  "exSelection = [''A.md'', ''B.md'', ''C.md'']"

definition exTags :: tag_index where
  "exTags =
     [(''x'', \<lparr> tag_name = ''x'', tag_color = ''tag-color-1'',
                 tag_files = [''A.md'', ''B.md'', ''C.md''] \<rparr>)]"

text \<open>A single selected note whose only link points outside the vault.\<close>

definition danglingCorpus :: corpus where
  "danglingCorpus =
     [(''A.md'', \<lparr> fs_file = ''A'', fs_content = ''[[Z]]'', fs_links = [''Z''] \<rparr>)]"

text \<open>
  Two tags on note A: \<^verbatim>\<open>x\<close> has three members, one of them selected below;
  \<^verbatim>\<open>y\<close> has two members, both selected.
\<close>

definition exTwoTags :: tag_index where
  "exTwoTags =
     [(''x'', \<lparr> tag_name = ''x'', tag_color = ''tag-color-1'',
                 tag_files = [''A.md'', ''C.md'', ''D.md''] \<rparr>),
      (''y'', \<lparr> tag_name = ''y'', tag_color = ''tag-color-2'',
                 tag_files = [''A.md'', ''B.md''] \<rparr>)]"

definition exNodeA :: GraphNode where
  "exNodeA = \<lparr> node_id = ''A'', node_name = ''A'', node_path = ''A.md'', radius = 12,
               isSelected = True, node_color = ''tag-color-2'' \<rparr>"

text \<open>Seven notes without links; none of them carries the tag of \<open>exTags\<close>.\<close>

definition sevenCorpus :: corpus where
  "sevenCorpus =
     map (\<lambda>b. (b @ ''.md'', \<lparr> fs_file = b, fs_content = [], fs_links = [] \<rparr>))
       [''n1'', ''n2'', ''n3'', ''n4'', ''n5'', ''n6'', ''n7'']"

definition sevenSelection :: "string list" where
  "sevenSelection = map fst sevenCorpus"

section \<open>Empty selection\<close>

text \<open>
  C4. With an empty selection set the build returns an empty node array and an empty
  edge array, whatever the corpus, the tag index and the settings are; the model has no
  error value to return, the result is the ordinary pair.
\<close>

theorem empty_selection_yields_empty_graph:
  "generateGraphData allData [] tags showTagConnections = ([], [])"
  by (simp add: generateGraphData_def)

section \<open>The link pass as a fold of guarded pushes\<close>

lemma linkExists_idPair:
  "linkExists ls s t \<longleftrightarrow> {node_id s, node_id t} \<in> idPair ` set ls"
  unfolding linkExists_def idPair_def list_ex_iff image_iff doubleton_eq_iff
  by (intro iffI; elim bexE; rule bexI; auto)

lemma addWikiLink_addLink:
  "addWikiLink allData sel nodeMap sourceNode ls link =
     (case wikiCandidate allData sel nodeMap sourceNode link of
        None \<Rightarrow> ls | Some e \<Rightarrow> addLink ls e)"
  by (auto simp: addWikiLink_def wikiCandidate_def addLink_def Let_def
           split: option.splits prod.splits)

lemma addTagLink_addLink:
  "addTagLink sel nodeMap path sourceNode tag ls targetPath =
     (case tagCandidate sel nodeMap path sourceNode tag targetPath of
        None \<Rightarrow> ls | Some e \<Rightarrow> addLink ls e)"
  by (auto simp: addTagLink_def tagCandidate_def addLink_def split: option.splits)

lemma foldl_option_step:
  assumes "\<And>a x. f a x = (case g x of None \<Rightarrow> a | Some e \<Rightarrow> h a e)"
  shows "foldl f a xs = foldl h a (List.map_filter g xs)"
  using assms by (induction xs arbitrary: a) (auto simp: List.map_filter_simps split: option.splits)

lemma foldl_addWikiLink:
  "foldl (addWikiLink allData sel nodeMap sourceNode) ls xs =
     foldl addLink ls (List.map_filter (wikiCandidate allData sel nodeMap sourceNode) xs)"
  by (rule foldl_option_step) (rule addWikiLink_addLink)

lemma foldl_addTagLink:
  "foldl (addTagLink sel nodeMap path sourceNode tag) ls xs =
     foldl addLink ls (List.map_filter (tagCandidate sel nodeMap path sourceNode tag) xs)"
  by (rule foldl_option_step) (rule addTagLink_addLink)

lemma addTagLinks_addLink:
  "addTagLinks tags sel nodeMap path sourceNode ls tag =
     foldl addLink ls (tagCandidates tags sel nodeMap path sourceNode tag)"
  by (simp add: addTagLinks_def tagCandidates_def foldl_addTagLink split: option.splits)

lemma foldl_concat_step:
  assumes "\<And>a x. f a x = foldl h a (g x)"
  shows "foldl f a xs = foldl h a (concat (map g xs))"
  using assms by (induction xs arbitrary: a) auto

lemma createLinks_addLink:
  "createLinks allData sel tags flag ftags nodeMap ls path =
     foldl addLink ls (candidatesOf allData sel tags flag ftags nodeMap path)"
  by (simp add: createLinks_def candidatesOf_def foldl_addWikiLink Let_def
        foldl_concat_step [where h = addLink, OF addTagLinks_addLink]
      split: option.splits)

lemma links_discovered:
  "snd (generateGraphData allData sel tags flag) =
     foldl addLink [] (discoveredLinks allData sel tags flag)"
  by (simp add: generateGraphData_def discoveredLinks_def Let_def
        foldl_concat_step [where h = addLink, OF createLinks_addLink]
      split: prod.splits)

lemma foldl_addLink_firstPerPair:
  "foldl addLink acc cs =
     acc @ firstPerPair (filter (\<lambda>c. idPair c \<notin> idPair ` set acc) cs)"
proof (induction cs arbitrary: acc)
  case Nil
  show ?case by simp
next
  case (Cons c cs)
  show ?case
  proof (cases "idPair c \<in> idPair ` set acc")
    case True
    then have "addLink acc c = acc"
      by (simp add: addLink_def linkExists_idPair idPair_def)
    with True Cons.IH [of acc] show ?thesis by simp
  next
    case False
    then have step: "addLink acc c = acc @ [c]"
      by (simp add: addLink_def linkExists_idPair idPair_def)
    have "filter (\<lambda>d. idPair d \<notin> idPair ` set (acc @ [c])) cs =
          filter (\<lambda>d. idPair d \<noteq> idPair c) (filter (\<lambda>d. idPair d \<notin> idPair ` set acc) cs)"
      by (induction cs) auto
    with False step Cons.IH [of "acc @ [c]"] show ?thesis by simp
  qed
qed

lemma set_firstPerPair_subset: "set (firstPerPair cs) \<subseteq> set cs"
  by (induction cs rule: firstPerPair.induct) auto

lemma distinct_firstPerPair: "distinct (map idPair (firstPerPair cs))"
proof (induction cs rule: firstPerPair.induct)
  case 1
  show ?case by simp
next
  case (2 e es)
  have "idPair e \<notin> idPair ` set (firstPerPair (filter (\<lambda>d. idPair d \<noteq> idPair e) es))"
    using set_firstPerPair_subset [of "filter (\<lambda>d. idPair d \<noteq> idPair e) es"] by auto
  with 2 show ?case by simp
qed


lemma createNode_nodeOf:
  "createNode allData tags c ug (ns, m) p =
     (case nodeOf allData tags c ug p of
        None \<Rightarrow> (ns, m)
      | Some n \<Rightarrow> (ns @ [n], m(node_id n \<mapsto> n, p \<mapsto> n)))"
  by (simp add: createNode_def nodeOf_def Let_def split: option.splits)

lemma fst_foldl_createNode:
  "fst (foldl (createNode allData tags c ug) (ns, m) sel) =
     ns @ List.map_filter (nodeOf allData tags c ug) sel"
  by (induction sel arbitrary: ns m)
     (auto simp: createNode_nodeOf List.map_filter_simps split: option.splits)

lemma ran_foldl_createNode:
  "ran m \<subseteq> set ns \<Longrightarrow>
   ran (snd (foldl (createNode allData tags c ug) (ns, m) sel)) \<subseteq>
     set (fst (foldl (createNode allData tags c ug) (ns, m) sel))"
proof (induction sel arbitrary: ns m)
  case Nil
  then show ?case by simp
next
  case (Cons p sel)
  show ?case
  proof (cases "nodeOf allData tags c ug p")
    case None
    with Cons show ?thesis by (simp add: createNode_nodeOf)
  next
    case (Some n)
    have ran: "ran (m(node_id n \<mapsto> n, p \<mapsto> n)) \<subseteq> set (ns @ [n])"
      using Cons.prems by (auto simp: ran_def split: if_splits)
    have step: "createNode allData tags c ug (ns, m) p = (ns @ [n], m(node_id n \<mapsto> n, p \<mapsto> n))"
      using Some by (simp add: createNode_nodeOf)
    show ?thesis unfolding foldl_Cons step by (rule Cons.IH) (rule ran)
  qed
qed

lemma createNodes_nodes:
  "fst (createNodes allData tags c ug sel) = List.map_filter (nodeOf allData tags c ug) sel"
  by (simp add: createNodes_def fst_foldl_createNode)

lemma createNodes_ran:
  "ran (snd (createNodes allData tags c ug sel)) \<subseteq> set (fst (createNodes allData tags c ug sel))"
  unfolding createNodes_def by (rule ran_foldl_createNode) simp

lemma getEither_ran: "getEither m a b = Some n \<Longrightarrow> n \<in> ran m"
  by (auto simp: getEither_def ran_def split: option.splits)

lemma wikiCandidate_Some:
  "wikiCandidate allData sel m s link = Some e \<Longrightarrow>
     source e = s \<and> target e \<in> ran m \<and> node_id (source e) \<noteq> node_id (target e) \<and>
     link_type e = ''wiki-link''"
  by (auto simp: wikiCandidate_def split: option.splits prod.splits if_splits dest: getEither_ran)

lemma tagCandidate_Some:
  "tagCandidate sel m path s tag tp = Some e \<Longrightarrow>
     source e = s \<and> target e \<in> ran m \<and> node_id (source e) \<noteq> node_id (target e) \<and>
     link_type e = ''tag-link''"
  by (auto simp: tagCandidate_def ran_def split: option.splits if_splits)

lemma in_map_filterD: "y \<in> set (List.map_filter f xs) \<Longrightarrow> \<exists>x \<in> set xs. f x = Some y"
  by (auto simp: List.map_filter_def)

lemma candidatesOf_sound:
  assumes "e \<in> set (candidatesOf allData sel tags flag ftags m path)"
  shows "source e \<in> ran m \<and> target e \<in> ran m \<and> node_id (source e) \<noteq> node_id (target e)"
  using assms
  by (auto simp: candidatesOf_def tagCandidates_def
           split: option.splits if_splits
           dest!: in_map_filterD wikiCandidate_Some tagCandidate_Some
           intro: getEither_ran [OF sym])

lemma discoveredLinks_sound:
  assumes "e \<in> set (discoveredLinks allData sel tags flag)"
  shows "source e \<in> set (fst (generateGraphData allData sel tags flag)) \<and>
         target e \<in> set (fst (generateGraphData allData sel tags flag)) \<and>
         node_id (source e) \<noteq> node_id (target e)"
proof (cases "sel = []")
  case True
  with assms show ?thesis by (simp add: discoveredLinks_def case_prod_beta)
next
  case False
  define c where "c = collectTags allData tags sel"
  define ug where "ug = createUntaggedGroups (untaggedFiles c)"
  define m where "m = snd (createNodes allData tags c ug sel)"
  have nodes: "fst (generateGraphData allData sel tags flag) = fst (createNodes allData tags c ug sel)"
    using False by (simp add: generateGraphData_def Let_def c_def ug_def case_prod_beta)
  from assms obtain p where "e \<in> set (candidatesOf allData sel tags flag (fileTags c) m p)"
    by (auto simp: discoveredLinks_def Let_def c_def ug_def m_def case_prod_beta)
  from candidatesOf_sound [OF this] createNodes_ran [of allData tags c ug sel]
  show ?thesis unfolding nodes m_def by auto
qed

lemma set_links_subset:
  "set (snd (generateGraphData allData sel tags flag)) \<subseteq> set (discoveredLinks allData sel tags flag)"
  using set_firstPerPair_subset [of "discoveredLinks allData sel tags flag"]
  by (simp add: links_discovered foldl_addLink_firstPerPair)

section \<open>Edges refer to nodes of the graph\<close>

text \<open>
  C10. Every edge of a built graph has its source node and its target node in the node
  array of the same build: both come out of \<^verbatim>\<open>nodeMap\<close>, which only ever holds
  nodes that were pushed to \<^verbatim>\<open>this.nodes\<close>.
\<close>

theorem edge_endpoints_are_nodes:
  "\<forall>l \<in> set (snd (generateGraphData allData selectedNodes tags showTagConnections)).
     source l \<in> set (fst (generateGraphData allData selectedNodes tags showTagConnections)) \<and>
     target l \<in> set (fst (generateGraphData allData selectedNodes tags showTagConnections))"
  using set_links_subset [of allData selectedNodes tags showTagConnections]
    discoveredLinks_sound [of _ allData selectedNodes tags showTagConnections]
  by blast

theorem edge_endpoints_are_nodes_witness:
  "length (snd (generateGraphData exCorpus exSelection exTags True)) = 3 \<and>
   set (map source (snd (generateGraphData exCorpus exSelection exTags True)))
     \<subseteq> set (fst (generateGraphData exCorpus exSelection exTags True)) \<and>
   set (map target (snd (generateGraphData exCorpus exSelection exTags True)))
     \<subseteq> set (fst (generateGraphData exCorpus exSelection exTags True))"
proof -
  have "length (snd (generateGraphData exCorpus exSelection exTags True)) = 3"
    by code_simp
  then show ?thesis
    using edge_endpoints_are_nodes [of exCorpus exSelection exTags True] by auto
qed

section \<open>One edge per pair of nodes, no loops\<close>

lemma distinct_endpointPair:
  assumes "distinct (map idPair ls)"
  shows "distinct (map endpointPair ls)"
proof -
  have "idPair l = node_id ` endpointPair l" for l
    by (simp add: idPair_def endpointPair_def)
  then have "inj_on endpointPair (set ls)"
    using assms by (metis distinct_map inj_on_def)
  with assms show ?thesis by (simp add: distinct_map)
qed

text \<open>
  C3. In every built graph the edges have pairwise different unordered pairs of
  endpoint ids, hence of endpoints, whatever their kinds are; no edge joins a node to
  itself (not even two nodes of one id); and the edge array is the sequence of edges in
  discovery order with, for each pair, only the first one kept.
\<close>

theorem edges_unique_per_pair:
  "distinct (map idPair (snd (generateGraphData allData selectedNodes tags showTagConnections))) \<and>
   distinct (map endpointPair
     (snd (generateGraphData allData selectedNodes tags showTagConnections))) \<and>
   (\<forall>l \<in> set (snd (generateGraphData allData selectedNodes tags showTagConnections)).
      node_id (source l) \<noteq> node_id (target l) \<and> source l \<noteq> target l) \<and>
   snd (generateGraphData allData selectedNodes tags showTagConnections) =
     firstPerPair (discoveredLinks allData selectedNodes tags showTagConnections)"
proof -
  let ?ls = "snd (generateGraphData allData selectedNodes tags showTagConnections)"
  have eq: "?ls = firstPerPair (discoveredLinks allData selectedNodes tags showTagConnections)"
    by (simp add: links_discovered foldl_addLink_firstPerPair)
  have d: "distinct (map idPair ?ls)"
    unfolding eq by (rule distinct_firstPerPair)
  have "node_id (source l) \<noteq> node_id (target l) \<and> source l \<noteq> target l"
    if "l \<in> set ?ls" for l
    using that set_links_subset [of allData selectedNodes tags showTagConnections]
      discoveredLinks_sound [of l allData selectedNodes tags showTagConnections]
    by auto
  with d distinct_endpointPair [OF d] eq show ?thesis by blast
qed

theorem edges_unique_per_pair_witness:
  "length (discoveredLinks exCorpus exSelection exTags True) = 9 \<and>
   length (snd (generateGraphData exCorpus exSelection exTags True)) = 3 \<and>
   distinct (map idPair (snd (generateGraphData exCorpus exSelection exTags True))) \<and>
   list_all (\<lambda>l. source l \<noteq> target l)
     (snd (generateGraphData exCorpus exSelection exTags True))"
proof -
  have "length (discoveredLinks exCorpus exSelection exTags True) = 9"
    by code_simp
  moreover have "length (snd (generateGraphData exCorpus exSelection exTags True)) = 3"
    by code_simp
  moreover have "distinct (map idPair (snd (generateGraphData exCorpus exSelection exTags True)))"
    using edges_unique_per_pair [of exCorpus exSelection exTags True] by (rule conjunct1)
  moreover have "list_all (\<lambda>l. source l \<noteq> target l)
      (snd (generateGraphData exCorpus exSelection exTags True))"
    unfolding list_all_iff
    using edges_unique_per_pair [of exCorpus exSelection exTags True] by blast
  ultimately show ?thesis by blast
qed

section \<open>Which documents get a node\<close>

lemma nodes_eq:
  "fst (generateGraphData allData sel tags flag) =
     List.map_filter
       (nodeOf allData tags (collectTags allData tags sel)
          (createUntaggedGroups (untaggedFiles (collectTags allData tags sel)))) sel"
  by (cases "sel = []")
     (simp_all add: generateGraphData_def Let_def case_prod_beta createNodes_nodes
        List.map_filter_simps)

lemma nodeOf_Some:
  "nodeOf allData tags c ug p = Some n \<Longrightarrow> node_path n = p \<and> map_of allData p \<noteq> None"
  by (auto simp: nodeOf_def split: option.splits)

lemma nodeOf_None: "nodeOf allData tags c ug p = None \<longleftrightarrow> map_of allData p = None"
  by (auto simp: nodeOf_def split: option.splits)

lemma hasNodeFor_iff:
  "hasNodeFor (fst (generateGraphData allData sel tags flag)) path \<longleftrightarrow>
     path \<in> set sel \<and> map_of allData path \<noteq> None"
proof -
  let ?f = "nodeOf allData tags (collectTags allData tags sel)
          (createUntaggedGroups (untaggedFiles (collectTags allData tags sel)))"
  have "hasNodeFor (List.map_filter ?f sel) path \<longleftrightarrow> (\<exists>p \<in> set sel. \<exists>n. ?f p = Some n \<and> node_path n = path)"
    unfolding hasNodeFor_def list_ex_iff List.map_filter_def by force
  also have "\<dots> \<longleftrightarrow> path \<in> set sel \<and> map_of allData path \<noteq> None"
    using nodeOf_Some [of allData tags _ _ _ _] nodeOf_None [of allData tags _ _ path]
    by (metis not_Some_eq)
  finally show ?thesis by (simp add: nodes_eq)
qed

text \<open>
  C1, as the code has it. For every corpus and every document in it, the build includes a
  node for that document if and only if the document's path is in the selection set.
  The build walks the selection and looks each element up as a key of the corpus, so a
  basename or a path without its extension selects nothing.
\<close>

theorem node_included_iff_path_selected:
  assumes "map_of allData path = Some fileSummary"
  shows "hasNodeFor (fst (generateGraphData allData selectedNodes tags showTagConnections)) path
           \<longleftrightarrow> path \<in> set selectedNodes"
  using assms by (simp add: hasNodeFor_iff)

theorem node_included_iff_path_selected_witness:
  "map_of exCorpus ''A.md'' =
     Some \<lparr> fs_file = ''A'', fs_content = ''#x [[B]]'', fs_links = [''B''] \<rparr> \<and>
   ''A.md'' \<in> set exSelection \<and>
   hasNodeFor (fst (generateGraphData exCorpus exSelection exTags True)) ''A.md''"
proof -
  have m: "map_of exCorpus ''A.md'' =
      Some \<lparr> fs_file = ''A'', fs_content = ''#x [[B]]'', fs_links = [''B''] \<rparr>"
    by (simp add: exCorpus_def)
  have "''A.md'' \<in> set exSelection"
    by (simp add: exSelection_def)
  with m node_included_iff_path_selected [OF m, of exSelection exTags True]
  show ?thesis by simp
qed

text \<open>
  The claim as worded fails: the note \<^verbatim>\<open>A.md\<close> is in the corpus and its basename
  \<^verbatim>\<open>A\<close> is selected, yet the build has no node for it.
\<close>

theorem node_included_by_basename_counterexample:
  "map_of exCorpus ''A.md'' =
     Some \<lparr> fs_file = ''A'', fs_content = ''#x [[B]]'', fs_links = [''B''] \<rparr> \<and>
   isSelectedAnySpelling [''A''] ''A.md''
     \<lparr> fs_file = ''A'', fs_content = ''#x [[B]]'', fs_links = [''B''] \<rparr> \<and>
   \<not> hasNodeFor (fst (generateGraphData exCorpus [''A''] exTags False)) ''A.md''"
  by code_simp

section \<open>Links that resolve to no document\<close>

lemma map_of_dropDangling:
  "map_of (dropDangling allData) p =
     map_option (\<lambda>fs. fs\<lparr> fs_links := filter (resolvable allData) (fs_links fs) \<rparr>)
       (map_of allData p)"
  by (simp add: dropDangling_def map_of_map)

lemma find_map_entries:
  assumes "\<And>p fs. fs_file (f fs) = fs_file fs"
  shows "findTarget (map (\<lambda>(p, fs). (p, f fs)) xs) l =
           map_option (\<lambda>(p, fs). (p, f fs)) (findTarget xs l)"
  using assms unfolding findTarget_def by (induction xs) auto

lemma findTarget_dropDangling:
  "findTarget (dropDangling allData) l =
     map_option (\<lambda>(p, fs). (p, fs\<lparr> fs_links := filter (resolvable allData) (fs_links fs) \<rparr>))
       (findTarget allData l)"
  unfolding dropDangling_def by (rule find_map_entries) simp

lemma collectFile_dropDangling:
  "collectFile (dropDangling allData) tags c p = collectFile allData tags c p"
  by (simp add: collectFile_def map_of_dropDangling split: option.splits)

lemma collectTags_dropDangling:
  "collectTags (dropDangling allData) tags sel = collectTags allData tags sel"
proof -
  have "collectFile (dropDangling allData) tags = collectFile allData tags"
    by (intro ext) (rule collectFile_dropDangling)
  then show ?thesis by (simp add: collectTags_def)
qed

lemma createNode_dropDangling:
  "createNode (dropDangling allData) tags c ug st p = createNode allData tags c ug st p"
  by (simp add: createNode_def map_of_dropDangling split: option.splits prod.splits)

lemma createNodes_dropDangling:
  "createNodes (dropDangling allData) tags c ug sel = createNodes allData tags c ug sel"
proof -
  have "createNode (dropDangling allData) tags c ug = createNode allData tags c ug"
    by (intro ext) (rule createNode_dropDangling)
  then show ?thesis by (simp add: createNodes_def)
qed

lemma wikiCandidate_dropDangling:
  "wikiCandidate (dropDangling allData) sel m s l = wikiCandidate allData sel m s l"
  by (auto simp: wikiCandidate_def findTarget_dropDangling split: option.splits)

lemma wikiCandidate_dangling:
  "\<not> resolvable allData l \<Longrightarrow> wikiCandidate allData sel m s l = None"
  by (auto simp: wikiCandidate_def resolvable_def split: option.splits)

lemma map_filter_filter_absorb:
  assumes "\<And>x. \<not> P x \<Longrightarrow> f x = None"
  shows "List.map_filter f (filter P xs) = List.map_filter f xs"
  using assms by (induction xs) (auto simp: List.map_filter_simps split: option.splits)

lemma candidatesOf_dropDangling:
  "candidatesOf (dropDangling allData) sel tags flag ftags m p =
     candidatesOf allData sel tags flag ftags m p"
proof -
  have "wikiCandidate (dropDangling allData) sel m s = wikiCandidate allData sel m s" for s
    by (intro ext) (rule wikiCandidate_dropDangling)
  then show ?thesis
    by (simp add: candidatesOf_def map_of_dropDangling
          map_filter_filter_absorb [OF wikiCandidate_dangling]
        split: option.splits)
qed

lemma discoveredLinks_dropDangling:
  "discoveredLinks (dropDangling allData) sel tags flag = discoveredLinks allData sel tags flag"
proof -
  have "candidatesOf (dropDangling allData) sel tags flag ftags m =
        candidatesOf allData sel tags flag ftags m" for ftags m
    by (intro ext) (rule candidatesOf_dropDangling)
  then show ?thesis
    by (simp add: discoveredLinks_def collectTags_dropDangling createNodes_dropDangling)
qed

lemma graph_eq_parts:
  "generateGraphData allData sel tags flag =
     (fst (createNodes allData tags (collectTags allData tags sel)
        (createUntaggedGroups (untaggedFiles (collectTags allData tags sel))) sel),
      foldl addLink [] (discoveredLinks allData sel tags flag))"
proof -
  have "generateGraphData allData sel tags flag =
      (fst (generateGraphData allData sel tags flag), snd (generateGraphData allData sel tags flag))"
    by simp
  also have "fst (generateGraphData allData sel tags flag) =
      fst (createNodes allData tags (collectTags allData tags sel)
        (createUntaggedGroups (untaggedFiles (collectTags allData tags sel))) sel)"
    by (simp add: nodes_eq createNodes_nodes)
  finally show ?thesis by (simp add: links_discovered)
qed

text \<open>
  C9. An outbound link that resolves to no document of the corpus is dropped silently:
  the build returns the very graph it returns for the corpus with all such links
  deleted, so the link yields no edge and does not disturb the rest of the build, and
  every selected document of the corpus still gets its node.  (The build is a total
  function: there is no failure for it to return.)
\<close>

theorem dangling_links_are_ignored:
  "generateGraphData (dropDangling allData) selectedNodes tags showTagConnections =
     generateGraphData allData selectedNodes tags showTagConnections \<and>
   (\<forall>path \<in> set selectedNodes. map_of allData path \<noteq> None \<longrightarrow>
      hasNodeFor (fst (generateGraphData allData selectedNodes tags showTagConnections)) path)"
proof -
  have "generateGraphData (dropDangling allData) selectedNodes tags showTagConnections =
      generateGraphData allData selectedNodes tags showTagConnections"
    by (simp add: graph_eq_parts [of "dropDangling allData"] graph_eq_parts [of allData]
          collectTags_dropDangling createNodes_dropDangling discoveredLinks_dropDangling)
  then show ?thesis by (simp add: hasNodeFor_iff)
qed

theorem dangling_links_are_ignored_witness:
  "dropDangling danglingCorpus =
     [(''A.md'', \<lparr> fs_file = ''A'', fs_content = ''[[Z]]'', fs_links = [] \<rparr>)] \<and>
   generateGraphData danglingCorpus [''A.md''] [] False =
     generateGraphData (dropDangling danglingCorpus) [''A.md''] [] False \<and>
   length (fst (generateGraphData danglingCorpus [''A.md''] [] False)) = 1 \<and>
   hasNodeFor (fst (generateGraphData danglingCorpus [''A.md''] [] False)) ''A.md'' \<and>
   snd (generateGraphData danglingCorpus [''A.md''] [] False) = []"
proof -
  have "dropDangling danglingCorpus =
      [(''A.md'', \<lparr> fs_file = ''A'', fs_content = ''[[Z]]'', fs_links = [] \<rparr>)]"
    by code_simp
  moreover have "length (fst (generateGraphData danglingCorpus [''A.md''] [] False)) = 1"
    by code_simp
  moreover have "snd (generateGraphData danglingCorpus [''A.md''] [] False) = []"
    by code_simp
  moreover have "map_of danglingCorpus ''A.md'' \<noteq> None"
    by (simp add: danglingCorpus_def)
  ultimately show ?thesis
    using dangling_links_are_ignored [of danglingCorpus "[''A.md'']" "[]" False]
    by simp
qed

section \<open>Switching tag connections on and off\<close>

lemma map_filter_all:
  assumes "\<And>x y. f x = Some y \<Longrightarrow> P y"
  shows "filter P (List.map_filter f xs) = List.map_filter f xs"
  using assms by (induction xs) (auto simp: List.map_filter_simps split: option.splits)

lemma map_filter_none:
  assumes "\<And>x y. f x = Some y \<Longrightarrow> \<not> P y"
  shows "filter P (List.map_filter f xs) = []"
  using assms by (induction xs) (auto simp: List.map_filter_simps split: option.splits)

lemma filter_wiki_tagCandidates:
  "filter (\<lambda>e. link_type e = ''wiki-link'') (tagCandidates tags sel m path s tag) = []"
  unfolding tagCandidates_def
  by (auto split: option.splits intro!: map_filter_none dest!: tagCandidate_Some)

lemma filter_concat_nil:
  assumes "\<And>x. filter P (g x) = []"
  shows "filter P (concat (map g xs)) = []"
  using assms by (induction xs) auto

lemma candidatesOf_toggle:
  "candidatesOf allData sel tags False ftags m path =
     filter (\<lambda>e. link_type e = ''wiki-link'') (candidatesOf allData sel tags True ftags m path)"
  by (auto simp: candidatesOf_def filter_concat_nil [OF filter_wiki_tagCandidates]
           split: option.splits
           intro!: map_filter_all [symmetric] dest!: wikiCandidate_Some)

lemma discoveredLinks_toggle:
  "discoveredLinks allData sel tags False =
     filter (\<lambda>e. link_type e = ''wiki-link'') (discoveredLinks allData sel tags True)"
proof -
  have "filter P (concat (map g xs)) = concat (map (\<lambda>x. filter P (g x)) xs)"
    for P :: "GraphLink \<Rightarrow> bool" and g :: "string \<Rightarrow> GraphLink list" and xs
    by (induction xs) auto
  then show ?thesis
    by (simp add: discoveredLinks_def Let_def case_prod_beta candidatesOf_toggle [symmetric])
qed

lemma discoveredLinks_kind:
  assumes "e \<in> set (discoveredLinks allData sel tags flag)"
  shows "link_type e = ''wiki-link'' \<or> link_type e = ''tag-link''"
proof -
  from assms obtain ftags m p where "e \<in> set (candidatesOf allData sel tags flag ftags m p)"
    by (auto simp: discoveredLinks_def Let_def case_prod_beta)
  then show ?thesis
    by (auto simp: candidatesOf_def tagCandidates_def split: option.splits if_splits
             dest!: in_map_filterD wikiCandidate_Some tagCandidate_Some)
qed

lemma addLink_cases:
  "addLink acc c = (if idPair c \<in> idPair ` set acc then acc else acc @ [c])"
  by (simp add: addLink_def linkExists_idPair idPair_def)

lemma foldl_addLink_filter:
  assumes "set (filter P acc) \<subseteq> set acc'" and "idPair ` set acc' \<subseteq> idPair ` set acc"
  shows "set (filter P (foldl addLink acc cs)) \<subseteq> set (foldl addLink acc' (filter P cs)) \<and>
         idPair ` set (foldl addLink acc' (filter P cs)) \<subseteq> idPair ` set (foldl addLink acc cs)"
  using assms
proof (induction cs arbitrary: acc acc')
  case Nil
  then show ?case by simp
next
  case (Cons c cs)
  show ?case
  proof (cases "P c")
    case False
    have "set (filter P (addLink acc c)) \<subseteq> set acc'"
      using Cons.prems(1) False by (auto simp: addLink_cases)
    moreover have "idPair ` set acc' \<subseteq> idPair ` set (addLink acc c)"
      using Cons.prems(2) by (auto simp: addLink_cases)
    ultimately show ?thesis
      using Cons.IH [of "addLink acc c" acc'] False by simp
  next
    case True
    have "set (filter P (addLink acc c)) \<subseteq> set (addLink acc' c)"
      using Cons.prems by (auto simp: addLink_cases)
    moreover have "idPair ` set (addLink acc' c) \<subseteq> idPair ` set (addLink acc c)"
      using Cons.prems(2) by (auto simp: addLink_cases)
    ultimately show ?thesis
      using Cons.IH [of "addLink acc c" "addLink acc' c"] True by simp
  qed
qed


text \<open>
  C5, as the code has it. For fixed corpus, selection and tag index, the build with tag
  connections disabled has the same nodes as the build with them enabled; its edges are
  all wiki links; every edge of the enabled build that is not an edge of the disabled
  build is a tag link; and every pair of ids joined by an edge of the disabled build is
  joined by an edge (of either kind) of the enabled build.
\<close>

theorem tag_toggle_edges:
  "fst (generateGraphData allData selectedNodes tags False) =
     fst (generateGraphData allData selectedNodes tags True) \<and>
   (\<forall>l \<in> set (snd (generateGraphData allData selectedNodes tags False)).
      link_type l = ''wiki-link'') \<and>
   (\<forall>l \<in> set (snd (generateGraphData allData selectedNodes tags True)).
      l \<notin> set (snd (generateGraphData allData selectedNodes tags False)) \<longrightarrow>
      link_type l = ''tag-link'') \<and>
   idPair ` set (snd (generateGraphData allData selectedNodes tags False)) \<subseteq>
     idPair ` set (snd (generateGraphData allData selectedNodes tags True))"
proof -
  let ?P = "\<lambda>e. link_type e = ''wiki-link''"
  let ?L0 = "snd (generateGraphData allData selectedNodes tags False)"
  let ?L1 = "snd (generateGraphData allData selectedNodes tags True)"
  let ?D1 = "discoveredLinks allData selectedNodes tags True"
  have L0: "?L0 = foldl addLink [] (filter ?P ?D1)"
    by (simp add: links_discovered discoveredLinks_toggle)
  have L1: "?L1 = foldl addLink [] ?D1"
    by (simp add: links_discovered)
  have both: "set (filter ?P ?L1) \<subseteq> set ?L0 \<and> idPair ` set ?L0 \<subseteq> idPair ` set ?L1"
    unfolding L0 L1 by (rule foldl_addLink_filter) simp_all
  have nodes: "fst (generateGraphData allData selectedNodes tags False) =
      fst (generateGraphData allData selectedNodes tags True)"
    by (simp add: nodes_eq)
  have wiki: "\<forall>l \<in> set ?L0. ?P l"
    using set_links_subset [of allData selectedNodes tags False]
    by (auto simp: discoveredLinks_toggle)
  have "link_type l = ''tag-link''" if "l \<in> set ?L1" "l \<notin> set ?L0" for l
  proof -
    from that(1) have "l \<in> set ?D1"
      using set_links_subset [of allData selectedNodes tags True] by auto
    from discoveredLinks_kind [OF this] that both show ?thesis by auto
  qed
  with nodes wiki both show ?thesis by blast
qed

theorem tag_toggle_edges_witness:
  "length (snd (generateGraphData exCorpus [''C.md'', ''A.md'', ''B.md''] exTags False)) = 2 \<and>
   length (snd (generateGraphData exCorpus [''C.md'', ''A.md'', ''B.md''] exTags True)) = 3 \<and>
   list_all (\<lambda>l. link_type l = ''wiki-link'')
     (snd (generateGraphData exCorpus [''C.md'', ''A.md'', ''B.md''] exTags False)) \<and>
   idPair ` set (snd (generateGraphData exCorpus [''C.md'', ''A.md'', ''B.md''] exTags False)) \<subseteq>
     idPair ` set (snd (generateGraphData exCorpus [''C.md'', ''A.md'', ''B.md''] exTags True))"
proof -
  have "length (snd (generateGraphData exCorpus [''C.md'', ''A.md'', ''B.md''] exTags False)) = 2"
    by code_simp
  moreover
  have "length (snd (generateGraphData exCorpus [''C.md'', ''A.md'', ''B.md''] exTags True)) = 3"
    by code_simp
  moreover
  have "list_all (\<lambda>l. link_type l = ''wiki-link'')
     (snd (generateGraphData exCorpus [''C.md'', ''A.md'', ''B.md''] exTags False))"
    unfolding list_all_iff
    using tag_toggle_edges [of exCorpus "[''C.md'', ''A.md'', ''B.md'']" exTags] by blast
  moreover
  have "idPair ` set (snd (generateGraphData exCorpus [''C.md'', ''A.md'', ''B.md''] exTags False)) \<subseteq>
     idPair ` set (snd (generateGraphData exCorpus [''C.md'', ''A.md'', ''B.md''] exTags True))"
    using tag_toggle_edges [of exCorpus "[''C.md'', ''A.md'', ''B.md'']" exTags] by blast
  ultimately show ?thesis by blast
qed

text \<open>
  The claim as worded fails. With \<^verbatim>\<open>C.md\<close> first in the selection, the enabled build
  joins C and B by a tag link while it visits C; when it reaches the wiki link from B to C
  the pair is taken.  The disabled build has that wiki link, the enabled one has not.
\<close>

theorem tag_toggle_subset_counterexample:
  "\<not> set (snd (generateGraphData exCorpus [''C.md'', ''A.md'', ''B.md''] exTags False)) \<subseteq>
       set (snd (generateGraphData exCorpus [''C.md'', ''A.md'', ''B.md''] exTags True))"
  by code_simp

section \<open>What the first pass collects\<close>

lemma memberTags_Cons:
  "memberTags ((tn, tg) # tags) p =
     (if p \<in> set (tag_files tg) then tn # memberTags tags p else memberTags tags p)"
  by (simp add: memberTags_def)

lemma memberTags_subset: "set (memberTags tags p) \<subseteq> fst ` set tags"
  by (auto simp: memberTags_def)

lemma collectTag_member:
  "p \<in> set (tag_files tg) \<Longrightarrow> tn \<notin> set ts \<Longrightarrow>
     fst (collectTag p (ts, g) (tn, tg)) = ts @ [tn] \<and>
     groupCount (snd (collectTag p (ts, g) (tn, tg))) t =
       groupCount g t + (if t = tn then 1 else 0)"
  by (auto simp: collectTag_def setAdd_def groupCount_def split: option.splits)

lemma collectTag_other:
  "p \<notin> set (tag_files tg) \<Longrightarrow> collectTag p st (tn, tg) = st"
  by (simp add: collectTag_def split: prod.splits)

lemma foldl_collectTag:
  assumes "distinct (map fst tags)" and "set ts \<inter> fst ` set tags = {}"
  shows "fst (foldl (collectTag p) (ts, g) tags) = ts @ memberTags tags p \<and>
         groupCount (snd (foldl (collectTag p) (ts, g) tags)) t =
           groupCount g t + (if t \<in> set (memberTags tags p) then 1 else 0)"
  using assms
proof (induction tags arbitrary: ts g)
  case Nil
  show ?case by (simp add: memberTags_def)
next
  case (Cons e tags)
  obtain tn tg where e: "e = (tn, tg)" by (cases e)
  from Cons.prems e have d: "distinct (map fst tags)" and tn: "tn \<notin> fst ` set tags"
    and ts: "tn \<notin> set ts" "set ts \<inter> fst ` set tags = {}"
    by auto
  show ?case
  proof (cases "p \<in> set (tag_files tg)")
    case False
    with Cons.IH [OF d ts(2), of g] e show ?thesis
      by (simp add: collectTag_other memberTags_Cons)
  next
    case True
    obtain ts' g' where st: "collectTag p (ts, g) (tn, tg) = (ts', g')"
      by (cases "collectTag p (ts, g) (tn, tg)")
    with collectTag_member [OF True ts(1), of g t]
    have ts': "ts' = ts @ [tn]"
      and g': "groupCount g' t = groupCount g t + (if t = tn then 1 else 0)"
      by simp_all
    have "set ts' \<inter> fst ` set tags = {}"
      using ts tn ts' by auto
    from Cons.IH [OF d this, of g'] tn memberTags_subset [of tags p]
    show ?thesis
      unfolding e by (auto simp: st ts' g' memberTags_Cons True)
  qed
qed

lemma collectFile_present:
  assumes "distinct (map fst tags)" and "map_of allData p = Some fs"
  shows "fileTags (collectFile allData tags c p) = (fileTags c)(p \<mapsto> memberTags tags p)"
    and "groupCount (tagGroups (collectFile allData tags c p)) t =
           groupCount (tagGroups c) t + (if t \<in> set (memberTags tags p) then 1 else 0)"
  using foldl_collectTag [OF assms(1), of "[]" p "tagGroups c" t] assms(2)
  by (auto simp: collectFile_def split: prod.splits)

lemma collectFile_absent:
  "map_of allData p = None \<Longrightarrow> collectFile allData tags c p = c"
  by (simp add: collectFile_def)

lemma foldl_collectFile:
  assumes "distinct (map fst tags)"
  shows "fileTags (foldl (collectFile allData tags) c sel) p =
           (if p \<in> set sel \<and> map_of allData p \<noteq> None then Some (memberTags tags p)
            else fileTags c p) \<and>
         groupCount (tagGroups (foldl (collectFile allData tags) c sel)) t =
           groupCount (tagGroups c) t + population allData sel tags t"
proof (induction sel arbitrary: c)
  case Nil
  show ?case by (simp add: population_def)
next
  case (Cons q sel)
  show ?case
  proof (cases "map_of allData q")
    case None
    with Cons.IH [of c] show ?thesis
      by (auto simp: collectFile_absent population_def)
  next
    case (Some fs)
    from Cons.IH [of "collectFile allData tags c q"]
      collectFile_present [OF assms Some]
    show ?thesis
      using Some by (auto simp: population_def)
  qed
qed

lemma collectTags_tagged:
  assumes "distinct (map fst tags)"
  shows "fileTags (collectTags allData tags sel) p =
           (if p \<in> set sel \<and> map_of allData p \<noteq> None then Some (memberTags tags p) else None)"
    and "groupCount (tagGroups (collectTags allData tags sel)) t = population allData sel tags t"
  using foldl_collectFile [OF assms, of allData _ sel p t]
  by (simp_all add: collectTags_def groupCount_def)

section \<open>The head of the sorted tag list\<close>

lemma length_insertBy: "length (insertBy cmp x ys) = Suc (length ys)"
  by (induction ys) auto

lemma length_sortBy: "length (sortBy cmp xs) = length xs"
  by (induction xs) (auto simp: sortBy_def length_insertBy)

lemma hd_insertBy:
  "hd (insertBy cmp x ys) = (if ys = [] \<or> cmp x (hd ys) \<le> 0 then x else hd ys)"
  by (cases ys) auto

lemma hd_sortBy_first_max:
  fixes cnt :: "'a \<Rightarrow> nat"
  assumes "ts \<noteq> []" and "\<And>a b. cmp a b = int (cnt b) - int (cnt a)"
  shows "\<exists>i < length ts. hd (sortBy cmp ts) = ts ! i \<and>
           (\<forall>j < length ts. cnt (ts ! j) \<le> cnt (ts ! i)) \<and>
           (\<forall>j < i. cnt (ts ! j) < cnt (ts ! i))"
  using assms(1)
proof (induction ts)
  case Nil
  then show ?case by simp
next
  case (Cons x xs)
  show ?case
  proof (cases "xs = []")
    case True
    then show ?thesis by (simp add: sortBy_def)
  next
    case False
    from Cons.IH [OF False] obtain i where i: "i < length xs"
      and h: "hd (sortBy cmp xs) = xs ! i"
      and mx: "\<forall>j < length xs. cnt (xs ! j) \<le> cnt (xs ! i)"
      and fst: "\<forall>j < i. cnt (xs ! j) < cnt (xs ! i)"
      by blast
    have ne: "sortBy cmp xs \<noteq> []"
      using False length_sortBy [of cmp xs] by (metis length_0_conv)
    have hd: "hd (sortBy cmp (x # xs)) =
        (if cnt (xs ! i) \<le> cnt x then x else xs ! i)"
      using ne h by (simp add: sortBy_def hd_insertBy assms(2))
    show ?thesis
    proof (cases "cnt (xs ! i) \<le> cnt x")
      case True
      have "\<forall>j < length (x # xs). cnt ((x # xs) ! j) \<le> cnt x"
        using mx True by (auto simp: nth_Cons split: nat.splits intro: le_trans)
      with hd True show ?thesis
        by (intro exI [of _ 0]) simp
    next
      case c: False
      have "\<forall>j < length (x # xs). cnt ((x # xs) ! j) \<le> cnt (xs ! i)"
        using mx c by (auto simp: nth_Cons split: nat.splits)
      moreover have "\<forall>j < Suc i. cnt ((x # xs) ! j) < cnt (xs ! i)"
        using fst c by (auto simp: nth_Cons split: nat.splits)
      ultimately show ?thesis
        using hd c i by (intro exI [of _ "Suc i"]) simp
    qed
  qed
qed


section \<open>The color of a tagged node\<close>

lemma in_nodes_nodeOf:
  assumes "n \<in> set (fst (generateGraphData allData sel tags flag))"
  shows "node_path n \<in> set sel \<and>
         nodeOf allData tags (collectTags allData tags sel)
           (createUntaggedGroups (untaggedFiles (collectTags allData tags sel)))
           (node_path n) = Some n"
  using assms unfolding nodes_eq
  by (auto dest!: in_map_filterD dest: nodeOf_Some)

lemma nodeOf_color:
  "nodeOf allData tags c ug p = Some n \<Longrightarrow> node_color n = nodeColorOf tags c ug p"
  by (auto simp: nodeOf_def split: option.splits)

lemma node_color_first_max_index:
  assumes "distinct (map fst tags)"
    and "n \<in> set (fst (generateGraphData allData selectedNodes tags showTagConnections))"
    and "memberTags tags (node_path n) \<noteq> []"
  shows "\<exists>i < length (memberTags tags (node_path n)). \<exists>tag.
           map_of tags (memberTags tags (node_path n) ! i) = Some tag \<and>
           node_color n = tag_color tag \<and>
           (\<forall>j < length (memberTags tags (node_path n)).
              population allData selectedNodes tags (memberTags tags (node_path n) ! j)
                \<le> population allData selectedNodes tags (memberTags tags (node_path n) ! i)) \<and>
           (\<forall>j < i.
              population allData selectedNodes tags (memberTags tags (node_path n) ! j)
                < population allData selectedNodes tags (memberTags tags (node_path n) ! i))"
proof -
  define c where "c = collectTags allData tags selectedNodes"
  define ug where "ug = createUntaggedGroups (untaggedFiles c)"
  define p where "p = node_path n"
  define ms where "ms = memberTags tags p"
  from in_nodes_nodeOf [OF assms(2)]
  have sel: "p \<in> set selectedNodes" and n: "nodeOf allData tags c ug p = Some n"
    by (simp_all add: c_def ug_def p_def)
  from n have present: "map_of allData p \<noteq> None"
    by (auto dest: nodeOf_Some)
  have ft: "fileTags c p = Some ms"
    using sel present by (simp add: c_def ms_def collectTags_tagged(1) [OF assms(1)])
  have ne: "ms \<noteq> []"
    using assms(3) by (simp add: ms_def p_def)
  have cnt: "groupCount (tagGroups c) t = population allData selectedNodes tags t" for t
    by (simp add: c_def collectTags_tagged(2) [OF assms(1)])
  have "\<exists>i < length ms. hd (sortBy (compareTags (tagGroups c)) ms) = ms ! i \<and>
      (\<forall>j < length ms. groupCount (tagGroups c) (ms ! j) \<le> groupCount (tagGroups c) (ms ! i)) \<and>
      (\<forall>j < i. groupCount (tagGroups c) (ms ! j) < groupCount (tagGroups c) (ms ! i))"
    by (rule hd_sortBy_first_max [OF ne]) (simp add: compareTags_def)
  then obtain i where i: "i < length ms"
    and h: "hd (sortBy (compareTags (tagGroups c)) ms) = ms ! i"
    and mx: "\<forall>j < length ms. population allData selectedNodes tags (ms ! j)
               \<le> population allData selectedNodes tags (ms ! i)"
    and first: "\<forall>j < i. population allData selectedNodes tags (ms ! j)
               < population allData selectedNodes tags (ms ! i)"
    unfolding cnt by blast
  have "ms ! i \<in> fst ` set tags"
    using i memberTags_subset [of tags p] by (auto simp: ms_def)
  then obtain tag where tag: "map_of tags (ms ! i) = Some tag"
    by (metis map_of_eq_None_iff not_Some_eq)
  have "sortBy (compareTags (tagGroups c)) ms \<noteq> []"
    using ne length_sortBy [of "compareTags (tagGroups c)" ms] by (metis length_0_conv)
  then obtain rest where "sortBy (compareTags (tagGroups c)) ms = ms ! i # rest"
    using h by (cases "sortBy (compareTags (tagGroups c)) ms") auto
  then have "taggedColor tags (tagGroups c) ms = tag_color tag"
    by (simp add: taggedColor_def tag)
  then have "node_color n = tag_color tag"
    using nodeOf_color [OF n] ft ne by (simp add: nodeColorOf_def)
  with i tag mx first show ?thesis
    unfolding ms_def p_def by blast
qed


lemma firstMostPopulous_index:
  fixes pop :: "string \<Rightarrow> nat"
  assumes "i < length ms"
    and "\<forall>j < length ms. pop (ms ! j) \<le> pop (ms ! i)"
    and "\<forall>j < i. pop (ms ! j) < pop (ms ! i)"
  shows "firstMostPopulous pop ms (ms ! i)"
proof -
  have "takeWhile (\<lambda>u. u \<noteq> ms ! i) ms = take i ms"
    using assms(1,3) by (intro takeWhile_eq_take_P_nth) auto
  moreover have "\<forall>u \<in> set (take i ms). pop u < pop (ms ! i)"
    using assms(1,3) by (auto simp: in_set_conv_nth)
  moreover have "\<forall>u \<in> set ms. pop u \<le> pop (ms ! i)"
    using assms(2) by (auto simp: in_set_conv_nth)
  ultimately show ?thesis
    using assms(1) by (simp add: firstMostPopulous_def list_all_iff)
qed

text \<open>
  C7, as the code has it. A node whose document belongs to at least one tag gets the
  color of the most populous of these tags, the first one in the iteration order of the
  tag index on a tie, where a tag is as populous as the number of included documents
  (selected and in the corpus) that belong to it.  The tag index is a
  \<^verbatim>\<open>Map\<close>, so its keys are distinct.
\<close>

theorem node_color_most_populous_tag:
  assumes "distinct (map fst tags)"
    and "n \<in> set (fst (generateGraphData allData selectedNodes tags showTagConnections))"
    and "memberTags tags (node_path n) \<noteq> []"
  shows "\<exists>t tag.
           firstMostPopulous (population allData selectedNodes tags)
             (memberTags tags (node_path n)) t \<and>
           map_of tags t = Some tag \<and>
           node_color n = tag_color tag"
  using node_color_first_max_index [OF assms] firstMostPopulous_index
  by blast

theorem node_color_most_populous_tag_witness:
  "distinct (map fst exTwoTags) \<and>
   exNodeA \<in> set (fst (generateGraphData exCorpus [''A.md'', ''B.md''] exTwoTags False)) \<and>
   memberTags exTwoTags (node_path exNodeA) = [''x'', ''y''] \<and>
   (\<exists>t tag.
      firstMostPopulous (population exCorpus [''A.md'', ''B.md''] exTwoTags)
        (memberTags exTwoTags (node_path exNodeA)) t \<and>
      map_of exTwoTags t = Some tag \<and>
      node_color exNodeA = tag_color tag)"
proof -
  have d: "distinct (map fst exTwoTags)"
    by (simp add: exTwoTags_def)
  have n: "exNodeA \<in> set (fst (generateGraphData exCorpus [''A.md'', ''B.md''] exTwoTags False))"
    by code_simp
  have m: "memberTags exTwoTags (node_path exNodeA) = [''x'', ''y'']"
    by code_simp
  then have "memberTags exTwoTags (node_path exNodeA) \<noteq> []"
    by simp
  from node_color_most_populous_tag [OF d n this] d n m show ?thesis
    by blast
qed

text \<open>
  The claim fails when a tag is taken to be as populous as its member set is large.  Of
  the tags of note A, \<^verbatim>\<open>x\<close> has the larger member set and the color
  \<^verbatim>\<open>tag-color-1\<close>; with A and B selected, the node of A is colored by
  \<^verbatim>\<open>y\<close>, which both of them carry.
\<close>

theorem node_color_largest_tag_counterexample:
  "firstMostPopulous (memberCount exTwoTags) (memberTags exTwoTags ''A.md'') ''x'' \<and>
   map_of exTwoTags ''x'' =
     Some \<lparr> tag_name = ''x'', tag_color = ''tag-color-1'',
            tag_files = [''A.md'', ''C.md'', ''D.md''] \<rparr> \<and>
   firstMostPopulous (population exCorpus [''A.md'', ''B.md''] exTwoTags)
     (memberTags exTwoTags ''A.md'') ''y'' \<and>
   exNodeA \<in> set (fst (generateGraphData exCorpus [''A.md'', ''B.md''] exTwoTags False)) \<and>
   node_path exNodeA = ''A.md'' \<and>
   node_color exNodeA = ''tag-color-2''"
  by code_simp

section \<open>Untagged documents\<close>

lemma foldl_collectTag_untagged:
  "memberTags tags p = [] \<Longrightarrow> foldl (collectTag p) st tags = st"
proof (induction tags arbitrary: st)
  case Nil
  show ?case by simp
next
  case (Cons e tags)
  obtain tn tg where e: "e = (tn, tg)" by (cases e)
  from Cons.prems have "p \<notin> set (tag_files tg)" and "memberTags tags p = []"
    unfolding e by (auto simp: memberTags_Cons split: if_splits)
  with Cons.IH show ?case
    unfolding e by (simp add: collectTag_other)
qed

lemma foldl_collectFile_untagged:
  assumes "\<forall>p \<in> set sel. map_of allData p \<noteq> None \<and> memberTags tags p = []"
  shows "untaggedFiles (foldl (collectFile allData tags) c sel) = untaggedFiles c @ sel \<and>
         fileTags (foldl (collectFile allData tags) c sel) q =
           (if q \<in> set sel then Some [] else fileTags c q)"
  using assms
proof (induction sel arbitrary: c)
  case Nil
  show ?case by simp
next
  case (Cons p sel)
  from Cons.prems obtain fs where "map_of allData p = Some fs" and "memberTags tags p = []"
    by auto
  then have step: "collectFile allData tags c p =
      \<lparr> fileTags = (fileTags c)(p \<mapsto> []), tagGroups = tagGroups c,
        untaggedFiles = untaggedFiles c @ [p] \<rparr>"
    by (simp add: collectFile_def foldl_collectTag_untagged)
  from Cons.IH [of "collectFile allData tags c p"] Cons.prems
  show ?case by (auto simp: step)
qed

lemma collectTags_untagged:
  assumes "\<forall>p \<in> set sel. map_of allData p \<noteq> None \<and> memberTags tags p = []"
  shows "untaggedFiles (collectTags allData tags sel) = sel"
    and "fileTags (collectTags allData tags sel) q = (if q \<in> set sel then Some [] else None)"
  using foldl_collectFile_untagged [OF assms, of _ q]
  by (simp_all add: collectTags_def)

lemma numberToString_digits:
  "numberToString (Suc 0) = ''1''" "numberToString 2 = ''2''" "numberToString 3 = ''3''"
  by (simp_all add: numberToString.simps)

lemma nodeOf_untagged:
  assumes "map_of allData p = Some fs" and "fileTags c p = Some []"
  shows "nodeOf allData tags c ug p =
     Some \<lparr> node_id = fs_file fs, node_name = fs_file fs, node_path = p, radius = 12,
            isSelected = True, node_color = untaggedColor ug p \<rparr>"
  using assms by (simp add: nodeOf_def nodeColorOf_def)

lemma seven_groups:
  "createUntaggedGroups [a, b, c, d, e, f, g] = [(1, [a, b, c]), (2, [d, e, f]), (3, [g])]"
  by (simp add: createUntaggedGroups_def)

lemma seven_colors:
  assumes "distinct [a, b, c, d, e, f, g]"
  shows "map (untaggedColor [(1, [a, b, c]), (2, [d, e, f]), (3, [g])]) [a, b, c, d, e, f, g] =
     [''untagged-group-1'', ''untagged-group-1'', ''untagged-group-1'',
      ''untagged-group-2'', ''untagged-group-2'', ''untagged-group-2'',
      ''untagged-group-3'']"
  using assms by (simp add: untaggedColor_def numberToString_digits)


lemma map_filter_nodes:
  assumes "\<forall>x \<in> set xs. \<exists>n. f x = Some n \<and> node_path n = x \<and> node_color n = g x"
  shows "map node_path (List.map_filter f xs) = xs \<and>
         map node_color (List.map_filter f xs) = map g xs"
  using assms by (induction xs) (auto simp: List.map_filter_simps)

text \<open>
  C6. When exactly seven documents are selected, all of them in the corpus and none a
  member of any tag, the build puts them, in the iteration order of the selection, into
  the groups 1, 2 and 3 of sizes 3, 3 and 1; the nodes, in the same order, get the color
  token of their group; and the three tokens differ.
\<close>

theorem seven_untagged_documents:
  assumes "length selectedNodes = 7" and "distinct selectedNodes"
    and "\<forall>p \<in> set selectedNodes. map_of allData p \<noteq> None \<and> memberTags tags p = []"
  shows "createUntaggedGroups (untaggedFiles (collectTags allData tags selectedNodes)) =
           [(1, take 3 selectedNodes), (2, take 3 (drop 3 selectedNodes)),
            (3, drop 6 selectedNodes)] \<and>
         map (length \<circ> snd)
           (createUntaggedGroups (untaggedFiles (collectTags allData tags selectedNodes))) =
           [3, 3, 1] \<and>
         map node_path (fst (generateGraphData allData selectedNodes tags showTagConnections)) =
           selectedNodes \<and>
         map node_color (fst (generateGraphData allData selectedNodes tags showTagConnections)) =
           [''untagged-group-1'', ''untagged-group-1'', ''untagged-group-1'',
            ''untagged-group-2'', ''untagged-group-2'', ''untagged-group-2'',
            ''untagged-group-3''] \<and>
         distinct [''untagged-group-1'', ''untagged-group-2'', ''untagged-group-3'']"
proof -
  from assms(1) obtain a b c d e f g where sel: "selectedNodes = [a, b, c, d, e, f, g]"
    by (auto simp: eval_nat_numeral length_Suc_conv)
  define col where "col = collectTags allData tags selectedNodes"
  define ug where "ug = createUntaggedGroups (untaggedFiles col)"
  have ug: "ug = [(1, [a, b, c]), (2, [d, e, f]), (3, [g])]"
    using collectTags_untagged(1) [OF assms(3)] by (simp add: ug_def col_def sel seven_groups)
  have node: "\<exists>fs :: FileSummary. nodeOf allData tags col ug p =
      Some \<lparr> node_id = fs_file fs, node_name = fs_file fs, node_path = p, radius = 12,
             isSelected = True, node_color = untaggedColor ug p \<rparr>"
    if "p \<in> set selectedNodes" for p
  proof -
    from that assms(3) obtain fs where "map_of allData p = Some fs" by auto
    moreover have "fileTags col p = Some []"
      using that by (simp add: col_def collectTags_untagged(2) [OF assms(3)])
    ultimately show ?thesis by (intro exI [of _ fs]) (rule nodeOf_untagged)
  qed
  have nodes: "fst (generateGraphData allData selectedNodes tags showTagConnections) =
      List.map_filter (nodeOf allData tags col ug) selectedNodes"
    by (simp add: nodes_eq col_def ug_def)
  have "\<forall>x \<in> set selectedNodes. \<exists>n. nodeOf allData tags col ug x = Some n \<and>
      node_path n = x \<and> node_color n = untaggedColor ug x"
    using node by fastforce
  from map_filter_nodes [OF this]
  have paths: "map node_path (List.map_filter (nodeOf allData tags col ug) selectedNodes) =
      selectedNodes"
    and colors: "map node_color (List.map_filter (nodeOf allData tags col ug) selectedNodes) =
      map (untaggedColor ug) selectedNodes"
    by simp_all
  have "map node_color (fst (generateGraphData allData selectedNodes tags showTagConnections)) =
      map (untaggedColor ug) selectedNodes"
    unfolding nodes by (rule colors)
  also have "\<dots> = [''untagged-group-1'', ''untagged-group-1'', ''untagged-group-1'',
            ''untagged-group-2'', ''untagged-group-2'', ''untagged-group-2'',
            ''untagged-group-3'']"
    unfolding ug sel using assms(2) [unfolded sel] by (rule seven_colors)
  finally have c: "map node_color
      (fst (generateGraphData allData selectedNodes tags showTagConnections)) =
      [''untagged-group-1'', ''untagged-group-1'', ''untagged-group-1'',
       ''untagged-group-2'', ''untagged-group-2'', ''untagged-group-2'',
       ''untagged-group-3'']" .
  have p: "map node_path (fst (generateGraphData allData selectedNodes tags showTagConnections)) =
      selectedNodes"
    unfolding nodes by (rule paths)
  have g: "createUntaggedGroups (untaggedFiles (collectTags allData tags selectedNodes)) =
      [(1, take 3 selectedNodes), (2, take 3 (drop 3 selectedNodes)), (3, drop 6 selectedNodes)]"
    using ug unfolding ug_def col_def by (simp add: sel)
  have "map (length \<circ> snd)
      (createUntaggedGroups (untaggedFiles (collectTags allData tags selectedNodes))) = [3, 3, 1]"
    unfolding g by (simp add: sel)
  with g p c show ?thesis by simp
qed

theorem seven_untagged_documents_witness:
  "length sevenSelection = 7 \<and> distinct sevenSelection \<and>
   list_all (\<lambda>p. map_of sevenCorpus p \<noteq> None \<and> memberTags exTags p = []) sevenSelection \<and>
   createUntaggedGroups (untaggedFiles (collectTags sevenCorpus exTags sevenSelection)) =
     [(1, [''n1.md'', ''n2.md'', ''n3.md'']), (2, [''n4.md'', ''n5.md'', ''n6.md'']),
      (3, [''n7.md''])] \<and>
   map node_color (fst (generateGraphData sevenCorpus sevenSelection exTags True)) =
     [''untagged-group-1'', ''untagged-group-1'', ''untagged-group-1'',
      ''untagged-group-2'', ''untagged-group-2'', ''untagged-group-2'',
      ''untagged-group-3'']"
proof -
  have s: "sevenSelection =
      [''n1.md'', ''n2.md'', ''n3.md'', ''n4.md'', ''n5.md'', ''n6.md'', ''n7.md'']"
    by (simp add: sevenSelection_def sevenCorpus_def)
  have l: "length sevenSelection = 7" and d: "distinct sevenSelection"
    by (simp_all add: s)
  have a: "list_all (\<lambda>p. map_of sevenCorpus p \<noteq> None \<and> memberTags exTags p = [])
      sevenSelection"
    by code_simp
  then have "\<forall>p \<in> set sevenSelection. map_of sevenCorpus p \<noteq> None \<and> memberTags exTags p = []"
    by (simp add: list_all_iff)
  from seven_untagged_documents [OF l d this, of True] l d a show ?thesis
    by (simp add: s)
qed

section \<open>Teardown\<close>

lemma newRenderer_value:
  "newRenderer =
     \<lparr> simulation = Some \<lparr> timerRunning = True, alpha = 1 / 2 \<rparr>,
       svgAttached = True, tooltipAttached = True, resizeObservers = 1, tickCalls = 0 \<rparr>"
  by (simp add: newRenderer_def initializeGraph_def initializeSimulation_def
        setupResizeObserver_def)

lemma destroy_newRenderer:
  "destroy newRenderer =
     \<lparr> simulation = Some \<lparr> timerRunning = False, alpha = 1 / 2 \<rparr>,
       svgAttached = False, tooltipAttached = False, resizeObservers = 1, tickCalls = 0 \<rparr>"
  by (simp add: newRenderer_value destroy_def)

lemma destroy_stops_timer:
  "timerFires (destroy r) = destroy r"
  by (simp add: timerFires_def destroy_def Let_def split: option.splits)

lemma uninitialized_reconfigure_noop:
  "simulation r = None \<Longrightarrow> updateSimulation r = r \<and> restartSimulation r = r"
  by (simp add: updateSimulation_def restartSimulation_def)

text \<open>
  C2 does not hold of the code. A renderer is constructed and destroyed. Its simulation
  is stopped, but its resize observer still observes the container; when the observer
  fires, the callback restarts the simulation and the next firing of the timer runs the
  tick callback once more.
\<close>

theorem destroy_keeps_resize_observer:
  "resizeObservers (destroy newRenderer) = 1 \<and>
   simulation (destroy newRenderer) = Some \<lparr> timerRunning = False, alpha = 1 / 2 \<rparr> \<and>
   simulation (resizeObserved (destroy newRenderer)) =
     Some \<lparr> timerRunning = True, alpha = 3 / 10 \<rparr> \<and>
   tickCalls (timerFires (resizeObserved (destroy newRenderer))) =
     tickCalls (destroy newRenderer) + 1"
  by (simp add: destroy_newRenderer resizeObserved_def timerFires_def)

text \<open>
  C8 does not hold of the code for a disposed handle. After \<^verbatim>\<open>destroy\<close> the
  \<^verbatim>\<open>simulation\<close> field still holds the stopped simulation, so the guards of
  \<^verbatim>\<open>restartSimulation\<close> and \<^verbatim>\<open>updateSimulation\<close> let the call through and the
  simulation runs again.  (On a handle whose simulation was never initialized both
  are no-ops.)
\<close>

theorem reconfigure_after_destroy_resumes:
  "simulation (destroy newRenderer) = Some \<lparr> timerRunning = False, alpha = 1 / 2 \<rparr> \<and>
   simulation (restartSimulation (destroy newRenderer)) =
     Some \<lparr> timerRunning = True, alpha = 1 / 2 \<rparr> \<and>
   simulation (updateSimulation (destroy newRenderer)) =
     Some \<lparr> timerRunning = True, alpha = 3 / 10 \<rparr> \<and>
   tickCalls (timerFires (restartSimulation (destroy newRenderer))) =
     tickCalls (destroy newRenderer) + 1"
  by (simp add: destroy_newRenderer restartSimulation_def updateSimulation_def timerFires_def)

end
